theory Spec2Isabelle
  imports Main
begin

section \<open>The counter record (app/models.py)\<close>

text \<open>
  \<^verbatim>\<open>class Counter(SQLModel, table=True)\<close> has five columns. Python's \<open>int\<close> is
  unbounded, so \<open>value\<close> is an \<open>int\<close>; \<open>id\<close> is \<open>Optional[int]\<close> and stays \<open>None\<close>
  until the row is inserted. A \<open>datetime\<close> is an abstract instant, here a natural number.
  The fields \<open>id\<close> and \<open>value\<close> carry the suffix \<open>_c\<close> because the plain names are taken.
\<close>

type_synonym datetime = nat

record Counter =
  id_c :: "nat option"
  name :: string
  value_c :: int
  created_at :: datetime
  updated_at :: datetime

section \<open>The persistence collaborator\<close>

text \<open>
  The table \<open>counters\<close> is the list of its rows in insertion order, together with the
  next primary key the engine hands out. The functions of app/counter.py never catch an
  exception, so one error value stands for whatever the persistence layer raises.
\<close>

datatype error = StorageError

record Database =
  counters :: "Counter list"
  next_id :: nat

text \<open>
  The state threaded through every call: the database behind the session, and two
  inputs from the environment. \<open>faults\<close> lists the outcome of the coming round trips to
  the database (\<open>True\<close>: that round trip fails; an exhausted list: no further failure).
  \<open>clock\<close> gives the reading of the \<open>k\<close>-th call of \<^verbatim>\<open>datetime.utcnow\<close>, and \<open>ticks\<close>
  counts the calls made so far.
\<close>

record Session =
  db :: Database
  faults :: "bool list"
  clock :: "nat \<Rightarrow> datetime"
  ticks :: nat

type_synonym 'a result = "(error + 'a) \<times> Session"

definition round_trip :: "Session \<Rightarrow> bool \<times> Session" where
  "round_trip s =
     (case faults s of
        [] \<Rightarrow> (True, s)
      | f # fs \<Rightarrow> (\<not> f, s\<lparr>faults := fs\<rparr>))"

definition utcnow :: "Session \<Rightarrow> datetime \<times> Session" where
  "utcnow s = (clock s (ticks s), s\<lparr>ticks := Suc (ticks s)\<rparr>)"

text \<open>
  \<^verbatim>\<open>Counter(name=name, value=v)\<close>: \<open>id\<close> defaults to \<open>None\<close>, and each of the two
  timestamp fields calls its \<^verbatim>\<open>default_factory=datetime.utcnow\<close>.
\<close>

definition new_Counter :: "Session \<Rightarrow> string \<Rightarrow> int \<Rightarrow> Counter \<times> Session" where
  "new_Counter s nm v =
     (let (t1, s1) = utcnow s;
          (t2, s2) = utcnow s1
      in (\<lparr>id_c = None, name = nm, value_c = v, created_at = t1, updated_at = t2\<rparr>, s2))"

text \<open>
  \<^verbatim>\<open>session.exec(select(Counter).where(Counter.name == name)).first()\<close>:
  one round trip; the first row whose name equals the argument, or \<open>None\<close>. The
  comparison is exact: tests/test_counter_service.py (test_counter_names_case_sensitive)
  requires names that differ only in case to be different counters.
\<close>

definition exec_first :: "Session \<Rightarrow> string \<Rightarrow> Counter option result" where
  "exec_first s nm =
     (let (ok, s') = round_trip s
      in if \<not> ok then (Inl StorageError, s')
         else (Inr (find (\<lambda>c. name c = nm) (counters (db s'))), s'))"

text \<open>
  \<^verbatim>\<open>session.add(counter); session.commit()\<close> for an object that is not yet in the
  table: one INSERT in one transaction. A failed round trip rolls the transaction back,
  and so does a violation of \<^verbatim>\<open>unique=True\<close> on \<open>name\<close>; otherwise the row gets the
  next primary key and is appended.
\<close>

definition commit_insert :: "Session \<Rightarrow> Counter \<Rightarrow> Counter result" where
  "commit_insert s c =
     (let (ok, s') = round_trip s
      in if \<not> ok then (Inl StorageError, s')
         else if find (\<lambda>r. name r = name c) (counters (db s')) \<noteq> None
           then (Inl StorageError, s')
         else
           (let c' = c\<lparr>id_c := Some (next_id (db s'))\<rparr>
            in (Inr c',
                s'\<lparr>db := \<lparr>counters = counters (db s') @ [c'],
                           next_id = Suc (next_id (db s'))\<rparr>\<rparr>)))"

text \<open>
  \<^verbatim>\<open>session.refresh(counter)\<close>: one round trip that reloads the object from the row
  with its primary key; it raises when that row is gone.
\<close>

definition refresh :: "Session \<Rightarrow> Counter \<Rightarrow> Counter result" where
  "refresh s c =
     (let (ok, s') = round_trip s
      in if \<not> ok then (Inl StorageError, s')
         else (case find (\<lambda>r. id_c r = id_c c) (counters (db s')) of
                 None \<Rightarrow> (Inl StorageError, s')
               | Some r \<Rightarrow> (Inr r, s')))"

text \<open>
  \<^verbatim>\<open>session.add(counter); session.commit()\<close> for an object loaded from the table
  whose \<open>value\<close> was assigned: one UPDATE of the column \<open>value\<close> in the row with the
  object's primary key, in one transaction. A failed round trip rolls it back; an UPDATE
  that matches no row raises.
\<close>

definition commit_update :: "Session \<Rightarrow> Counter \<Rightarrow> Counter result" where
  "commit_update s c =
     (let (ok, s') = round_trip s
      in if \<not> ok then (Inl StorageError, s')
         else if find (\<lambda>r. id_c r = id_c c) (counters (db s')) = None
           then (Inl StorageError, s')
         else
           (Inr c,
            s'\<lparr>db := (db s')\<lparr>counters :=
                  map (\<lambda>r. if id_c r = id_c c then r\<lparr>value_c := value_c c\<rparr> else r)
                      (counters (db s'))\<rparr>\<rparr>))"

text \<open>
  \<^verbatim>\<open>counter.value\<close> read after \<^verbatim>\<open>session.commit()\<close>: the session was opened with the
  default \<^verbatim>\<open>expire_on_commit=True\<close>, so the commit expires the object and reading the
  attribute loads the row again, which is one more round trip.
\<close>

definition load_value :: "Session \<Rightarrow> Counter \<Rightarrow> int result" where
  "load_value s c =
     (case refresh s c of
        (Inl e, s') \<Rightarrow> (Inl e, s')
      | (Inr r, s') \<Rightarrow> (Inr (value_c r), s'))"

section \<open>The counter operations (app/counter.py)\<close>

definition get_counter :: "Session \<Rightarrow> string \<Rightarrow> Counter result" where
  "get_counter session nm =
     (case exec_first session nm of
        (Inl e, s1) \<Rightarrow> (Inl e, s1)
      | (Inr (Some counter), s1) \<Rightarrow> (Inr counter, s1)
      | (Inr None, s1) \<Rightarrow>
          (let (counter, s2) = new_Counter s1 nm 0
           in case commit_insert s2 counter of
                (Inl e, s3) \<Rightarrow> (Inl e, s3)
              | (Inr counter', s3) \<Rightarrow> refresh s3 counter'))"

definition increment_counter :: "Session \<Rightarrow> string \<Rightarrow> int result" where
  "increment_counter session nm =
     (case get_counter session nm of
        (Inl e, s1) \<Rightarrow> (Inl e, s1)
      | (Inr counter, s1) \<Rightarrow>
          (case commit_update s1 (counter\<lparr>value_c := value_c counter + 1\<rparr>) of
             (Inl e, s2) \<Rightarrow> (Inl e, s2)
           | (Inr counter', s2) \<Rightarrow> load_value s2 counter'))"

definition decrement_counter :: "Session \<Rightarrow> string \<Rightarrow> int result" where
  "decrement_counter session nm =
     (case get_counter session nm of
        (Inl e, s1) \<Rightarrow> (Inl e, s1)
      | (Inr counter, s1) \<Rightarrow>
          (case commit_update s1 (counter\<lparr>value_c := value_c counter - 1\<rparr>) of
             (Inl e, s2) \<Rightarrow> (Inl e, s2)
           | (Inr counter', s2) \<Rightarrow> load_value s2 counter'))"

definition reset_counter :: "Session \<Rightarrow> string \<Rightarrow> int result" where
  "reset_counter session nm =
     (case get_counter session nm of
        (Inl e, s1) \<Rightarrow> (Inl e, s1)
      | (Inr counter, s1) \<Rightarrow>
          (case commit_update s1 (counter\<lparr>value_c := 0\<rparr>) of
             (Inl e, s2) \<Rightarrow> (Inl e, s2)
           | (Inr counter', s2) \<Rightarrow> load_value s2 counter'))"

section \<open>Notions used to state the properties\<close>

text \<open>
  The three mutators differ only in the new value they assign; \<open>update_counter\<close> is their
  common shape, so that one proof serves all three.
\<close>

definition update_counter :: "(int \<Rightarrow> int) \<Rightarrow> Session \<Rightarrow> string \<Rightarrow> int result" where
  "update_counter f session nm =
     (case get_counter session nm of
        (Inl e, s1) \<Rightarrow> (Inl e, s1)
      | (Inr counter, s1) \<Rightarrow>
          (case commit_update s1 (counter\<lparr>value_c := f (value_c counter)\<rparr>) of
             (Inl e, s2) \<Rightarrow> (Inl e, s2)
           | (Inr counter', s2) \<Rightarrow> load_value s2 counter'))"

text \<open>The record stored under a name, and its value (0 when there is none).\<close>

definition lookup :: "Database \<Rightarrow> string \<Rightarrow> Counter option" where
  "lookup d nm = find (\<lambda>c. name c = nm) (counters d)"

definition stored_value :: "Database \<Rightarrow> string \<Rightarrow> int" where
  "stored_value d nm = (case lookup d nm of None \<Rightarrow> 0 | Some c \<Rightarrow> value_c c)"

text \<open>The records stored under every other name, in table order, with all their fields.\<close>

definition others :: "string \<Rightarrow> Database \<Rightarrow> Counter list" where
  "others nm d = filter (\<lambda>c. name c \<noteq> nm) (counters d)"

definition set_value :: "string \<Rightarrow> int \<Rightarrow> Counter list \<Rightarrow> Counter list" where
  "set_value nm v rows = map (\<lambda>r. if name r = nm then r\<lparr>value_c := v\<rparr> else r) rows"

text \<open>
  What the schema guarantees of the table: \<open>id\<close> is the primary key (present, unique,
  and handed out below \<open>next_id\<close>), and \<open>name\<close> is unique.
\<close>

definition id_below :: "nat \<Rightarrow> Counter \<Rightarrow> bool" where
  "id_below k c = (case id_c c of None \<Rightarrow> False | Some i \<Rightarrow> i < k)"

definition table_ok :: "Database \<Rightarrow> bool" where
  "table_ok d \<longleftrightarrow>
     distinct (map id_c (counters d)) \<and>
     distinct (map name (counters d)) \<and>
     list_all (id_below (next_id d)) (counters d)"

text \<open>A freshly created schema: no rows, and primary keys start at 1.\<close>

definition fresh_db :: Database where
  "fresh_db = \<lparr>counters = [], next_id = 1\<rparr>"

text \<open>
  Normal availability of the persistence layer: no coming round trip fails.
  \<open>no_faults s\<close> is the session \<open>s\<close> run under such availability.
\<close>

definition available :: "Session \<Rightarrow> bool" where
  "available s \<longleftrightarrow> True \<notin> set (faults s)"

definition no_faults :: "Session \<Rightarrow> Session" where
  "no_faults s = s\<lparr>faults := []\<rparr>"

text \<open>
  The number of round trips of a call that meets no failure: the SELECT, and for a name
  that is not stored the INSERT transaction and the refresh; a mutator adds the UPDATE
  transaction and the reload of \<open>value\<close>.
\<close>

definition trips_get :: "Database \<Rightarrow> string \<Rightarrow> nat" where
  "trips_get d nm = (if lookup d nm = None then 3 else 1)"

definition trips_update :: "Database \<Rightarrow> string \<Rightarrow> nat" where
  "trips_update d nm = trips_get d nm + 2"

text \<open>
  The round trips up to and including the commit of the INSERT (none for a stored
  name), and those up to and including the commit of the UPDATE of a mutator.
\<close>

definition trips_create :: "Database \<Rightarrow> string \<Rightarrow> nat" where
  "trips_create d nm = (if lookup d nm = None then 2 else 0)"

definition trips_commit :: "Database \<Rightarrow> string \<Rightarrow> nat" where
  "trips_commit d nm = trips_get d nm + 1"

text \<open>
  A sequence of increment and decrement calls on one name, run one after the other on
  one session; it collects the returned values and stops at the first error, as the
  exception would. \<open>running v cs\<close> is the list of running sums of the steps from \<open>v\<close>.
\<close>

datatype call = Increment | Decrement

fun call_counter :: "Session \<Rightarrow> string \<Rightarrow> call \<Rightarrow> int result" where
  "call_counter s nm Increment = increment_counter s nm"
| "call_counter s nm Decrement = decrement_counter s nm"

fun run_calls :: "Session \<Rightarrow> string \<Rightarrow> call list \<Rightarrow> int list result" where
  "run_calls s nm [] = (Inr [], s)"
| "run_calls s nm (c # cs) =
     (case call_counter s nm c of
        (Inl e, s') \<Rightarrow> (Inl e, s')
      | (Inr v, s') \<Rightarrow>
          (case run_calls s' nm cs of
             (Inl e, s'') \<Rightarrow> (Inl e, s'')
           | (Inr vs, s'') \<Rightarrow> (Inr (v # vs), s'')))"

fun step :: "call \<Rightarrow> int" where
  "step Increment = 1"
| "step Decrement = - 1"

fun running :: "int \<Rightarrow> call list \<Rightarrow> int list" where
  "running v [] = []"
| "running v (c # cs) = (v + step c) # running (v + step c) cs"

text \<open>
  \<open>fails k fs\<close>: one of the next \<open>k\<close> round trips fails. \<open>rest k fs\<close>: the outcomes
  left for later calls by a call of \<open>k\<close> round trips that stops at its first failure.
\<close>

definition fails :: "nat \<Rightarrow> bool list \<Rightarrow> bool" where
  "fails k fs \<longleftrightarrow> True \<in> set (take k fs)"

definition rest :: "nat \<Rightarrow> bool list \<Rightarrow> bool list" where
  "rest k fs = (if fails k fs then tl (dropWhile Not fs) else drop k fs)"

text \<open>
  A session on a fresh database with nothing failing, and the seeding used by the tests:
  \<^verbatim>\<open>counter = Counter(name=nm, value=v); session.add(counter); session.commit()\<close>.
\<close>

definition fresh_session :: "(nat \<Rightarrow> datetime) \<Rightarrow> Session" where
  "fresh_session clk = \<lparr>db = fresh_db, faults = [], clock = clk, ticks = 0\<rparr>"

definition seed :: "Session \<Rightarrow> string \<Rightarrow> int \<Rightarrow> Session" where
  "seed s nm v = (let (c, s1) = new_Counter s nm v in snd (commit_insert s1 c))"

section \<open>Lemmas about the table and the round trips\<close>

lemma find_key_distinct:
  "distinct (map f xs) \<Longrightarrow> x \<in> set xs \<Longrightarrow> find (\<lambda>r. f r = f x) xs = Some x"
  by (induction xs) (auto simp: rev_image_eqI)

lemma find_mem: "find P xs = Some x \<Longrightarrow> x \<in> set xs \<and> P x"
  by (induction xs) (auto split: if_splits)

lemma find_append: "find P (xs @ ys) = (case find P xs of None \<Rightarrow> find P ys | Some x \<Rightarrow> Some x)"
  by (induction xs) auto

lemma find_None_notin: "find (\<lambda>c. f c = k) xs = None \<Longrightarrow> k \<notin> f ` set xs"
  by (induction xs) (auto split: if_splits)

lemma id_below_Suc: "list_all (id_below k) xs \<Longrightarrow> list_all (id_below (Suc k)) xs"
  by (induction xs) (auto simp: id_below_def split: option.splits)

lemma id_below_fresh: "list_all (id_below k) xs \<Longrightarrow> Some k \<notin> id_c ` set xs"
  by (induction xs) (auto simp: id_below_def split: option.splits)

lemma id_below_find: "list_all (id_below k) xs \<Longrightarrow> find (\<lambda>r. id_c r = Some k) xs = None"
  by (induction xs) (auto simp: id_below_def split: option.splits)

lemma get_counter_post:
  assumes "table_ok (db s)" and "get_counter s n = (r, s1)"
  shows "table_ok (db s1) \<and> others n (db s1) = others n (db s) \<and>
         (\<forall>c. r = Inr c \<longrightarrow> c \<in> set (counters (db s1)) \<and> name c = n)"
  using assms
  unfolding get_counter_def exec_first_def commit_insert_def refresh_def round_trip_def
    new_Counter_def utcnow_def table_ok_def others_def
  by (auto simp: Let_def find_append id_below_fresh id_below_Suc id_below_find id_below_def
      dest: find_mem find_None_notin split: list.splits if_splits option.splits prod.splits)

lemma increment_counter_update: "increment_counter = update_counter (\<lambda>v. v + 1)"
  by (rule ext)+ (simp add: increment_counter_def update_counter_def)

lemma decrement_counter_update: "decrement_counter = update_counter (\<lambda>v. v - 1)"
  by (rule ext)+ (simp add: decrement_counter_def update_counter_def)

lemma reset_counter_update: "reset_counter = update_counter (\<lambda>v. 0)"
  by (rule ext)+ (simp add: reset_counter_def update_counter_def)

lemma get_counter_avail:
  assumes "available s" "table_ok (db s)"
  shows "\<exists>c s1. get_counter s n = (Inr c, s1) \<and> available s1 \<and> 
     value_c c = stored_value (db s) n \<and> lookup (db s1) n = Some c \<and> clock s1 = clock s \<and>
     (case lookup (db s) n of Some c0 \<Rightarrow> c = c0 \<and> db s1 = db s \<and> ticks s1 = ticks s
        | None \<Rightarrow> c = \<lparr>id_c = Some (next_id (db s)), name = n, value_c = 0,
                    created_at = clock s (ticks s), updated_at = clock s (Suc (ticks s))\<rparr> \<and>
               db s1 = \<lparr>counters = counters (db s) @ [c], next_id = Suc (next_id (db s))\<rparr> \<and> ticks s1 = Suc (Suc (ticks s)))"
  using assms
  unfolding get_counter_def exec_first_def commit_insert_def refresh_def round_trip_def
    new_Counter_def utcnow_def table_ok_def lookup_def stored_value_def available_def
  by (auto simp: Let_def find_append id_below_find 
      dest: find_mem find_None_notin split: list.splits if_splits option.splits prod.splits)

lemma key_eq_iff:
  "distinct (map f xs) \<Longrightarrow> c \<in> set xs \<Longrightarrow> r \<in> set xs \<Longrightarrow> f r = f c \<longleftrightarrow> r = c"
  by (auto simp: distinct_map dest: inj_onD)

lemma update_by_id_is_by_name:
  assumes "distinct (map id_c xs)" "distinct (map name xs)" "c \<in> set xs"
  shows "map (\<lambda>r. if id_c r = id_c c then r\<lparr>value_c := v\<rparr> else r) xs = set_value (name c) v xs"
  unfolding set_value_def
proof (rule map_cong[OF refl])
  fix r assume "r \<in> set xs"
  then have "id_c r = id_c c \<longleftrightarrow> name r = name c"
    using key_eq_iff[OF assms(1) assms(3)] key_eq_iff[OF assms(2) assms(3)] by blast
  then show "(if id_c r = id_c c then r\<lparr>value_c := v\<rparr> else r) =
             (if name r = name c then r\<lparr>value_c := v\<rparr> else r)" by simp
qed

lemma set_value_ids [simp]: "map id_c (set_value n v xs) = map id_c xs"
  by (induction xs) (auto simp: set_value_def)

lemma set_value_names [simp]: "map name (set_value n v xs) = map name xs"
  by (induction xs) (auto simp: set_value_def)

lemma set_value_below [simp]: "list_all (id_below k) (set_value n v xs) = list_all (id_below k) xs"
  by (induction xs) (auto simp: set_value_def id_below_def)

lemma set_value_others [simp]: "filter (\<lambda>c. name c \<noteq> n) (set_value n v xs) = filter (\<lambda>c. name c \<noteq> n) xs"
  by (induction xs) (auto simp: set_value_def)

lemma find_set_value:
  "find (\<lambda>c. name c = m) (set_value n v xs) =
     (if m = n then map_option (\<lambda>r. r\<lparr>value_c := v\<rparr>) (find (\<lambda>c. name c = m) xs)
      else find (\<lambda>c. name c = m) xs)"
  by (induction xs) (auto simp: set_value_def)

lemma table_ok_set_value:
  "table_ok d \<Longrightarrow> table_ok (d\<lparr>counters := set_value n v (counters d)\<rparr>)"
  by (simp add: table_ok_def)

lemma commit_update_post:
  assumes "table_ok (db s)" "c \<in> set (counters (db s))" "commit_update s (c\<lparr>value_c := v\<rparr>) = (r, s')"
  shows "faults s' = tl (faults s) \<and> clock s' = clock s \<and> ticks s' = ticks s \<and>
        ((r = Inl StorageError \<and> db s' = db s \<and> faults s \<noteq> [] \<and> hd (faults s)) \<or>
         (r = Inr (c\<lparr>value_c := v\<rparr>) \<and> db s' = (db s)\<lparr>counters := set_value (name c) v (counters (db s))\<rparr>
            \<and> \<not> (faults s \<noteq> [] \<and> hd (faults s))))"
proof -
  have ids: "distinct (map id_c (counters (db s)))" and names: "distinct (map name (counters (db s)))"
    using assms(1) by (simp_all add: table_ok_def)
  have found: "find (\<lambda>r. id_c r = id_c c) (counters (db s)) = Some c"
    using ids assms(2) by (rule find_key_distinct)
  have upd: "map (\<lambda>r. if id_c r = id_c c then r\<lparr>value_c := v\<rparr> else r) (counters (db s)) =
             set_value (name c) v (counters (db s))"
    using ids names assms(2) by (rule update_by_id_is_by_name)
  show ?thesis
    using assms(3) unfolding commit_update_def round_trip_def
    by (cases "faults s") (auto simp: found upd split: if_splits cong: if_cong)
qed

lemma load_value_post:
  assumes "distinct (map id_c (counters (db s)))" "c \<in> set (counters (db s))" "id_c c' = id_c c"
    "load_value s c' = (r, s')"
  shows "faults s' = tl (faults s) \<and> clock s' = clock s \<and> ticks s' = ticks s \<and>
         db s' = db s \<and> (r = Inl StorageError \<and> faults s \<noteq> [] \<and> hd (faults s) \<or>
         r = Inr (value_c c) \<and> \<not> (faults s \<noteq> [] \<and> hd (faults s)))"
  using assms find_key_distinct[of id_c "counters (db s)" c]
  unfolding load_value_def refresh_def round_trip_def
  by (auto simp: Let_def split: list.splits if_splits prod.splits option.splits)

lemma get_counter_cases:
  assumes "table_ok (db s)" and "get_counter s n = (r, s1)"
  shows "(r = Inl StorageError \<and> (db s1 = db s \<or> db s1 = db (snd (get_counter (no_faults s) n)))) \<or>
         (r = fst (get_counter (no_faults s) n) \<and> db s1 = db (snd (get_counter (no_faults s) n)) \<and> (\<exists>c. r = Inr c))"
  using assms
  unfolding get_counter_def exec_first_def commit_insert_def refresh_def round_trip_def
    new_Counter_def utcnow_def table_ok_def no_faults_def
  by (auto simp: Let_def find_append id_below_find
      dest: find_mem find_None_notin split: list.splits if_splits option.splits prod.splits)

lemma get_counter_faults:
  "(fst (get_counter s n) = Inl StorageError \<longleftrightarrow> True \<in> set (take (trips_get (db s) n) (faults s))) \<and>
   faults (snd (get_counter s n)) =
     (if True \<in> set (take (trips_get (db s) n) (faults s)) then tl (dropWhile Not (faults s))
      else drop (trips_get (db s) n) (faults s))"
  unfolding get_counter_def exec_first_def commit_insert_def refresh_def round_trip_def
    new_Counter_def utcnow_def trips_get_def lookup_def
  by (auto simp: Let_def find_append numeral_3_eq_3
      dest: find_mem find_None_notin split: list.splits if_splits option.splits prod.splits)

lemma available_hd: "available s \<Longrightarrow> \<not> (faults s \<noteq> [] \<and> hd (faults s))"
  by (cases "faults s") (auto simp: available_def)

lemma available_tl_faults: "available s \<Longrightarrow> faults s' = tl (faults s) \<Longrightarrow> available s'"
  by (cases "faults s") (auto simp: available_def)

lemma update_counter_avail:
  assumes "available s" "table_ok (db s)"
  shows "\<exists>s'. update_counter f s n = (Inr (f (stored_value (db s) n)), s') \<and> available s' \<and>
           clock s' = clock s \<and> ticks s' = ticks (snd (get_counter s n)) \<and>
           db s' = (db (snd (get_counter s n)))\<lparr>counters :=
                      set_value n (f (stored_value (db s) n)) (counters (db (snd (get_counter s n))))\<rparr>"
proof -
  obtain c s1 where g: "get_counter s n = (Inr c, s1)" and a1: "available s1"
    and v: "value_c c = stored_value (db s) n" and l1: "lookup (db s1) n = Some c"
    and c1: "clock s1 = clock s"
    using get_counter_avail[OF assms, of n] by blast
  from get_counter_post[OF assms(2) g]
  have ok1: "table_ok (db s1)" and mem: "c \<in> set (counters (db s1))" and nm: "name c = n"
    by simp_all
  let ?v = "f (stored_value (db s) n)"
  obtain r2 s2 where cu: "commit_update s1 (c\<lparr>value_c := ?v\<rparr>) = (r2, s2)"
    by (cases "commit_update s1 (c\<lparr>value_c := ?v\<rparr>)")
  from commit_update_post[OF ok1 mem cu] available_hd[OF a1]
  have r2: "r2 = Inr (c\<lparr>value_c := ?v\<rparr>)"
    and d2: "db s2 = (db s1)\<lparr>counters := set_value n ?v (counters (db s1))\<rparr>"
    and f2: "faults s2 = tl (faults s1)" and c2: "clock s2 = clock s1" and t2: "ticks s2 = ticks s1"
    by (auto simp: nm)
  have a2: "available s2" using a1 f2 by (rule available_tl_faults)
  obtain r3 s3 where lv: "load_value s2 (c\<lparr>value_c := ?v\<rparr>) = (r3, s3)"
    by (cases "load_value s2 (c\<lparr>value_c := ?v\<rparr>)")
  have ids2: "distinct (map id_c (counters (db s2)))" using ok1 by (simp add: d2 table_ok_def)
  have mem2: "c\<lparr>value_c := ?v\<rparr> \<in> set (counters (db s2))"
    using mem nm by (auto simp: d2 set_value_def intro!: rev_image_eqI[of c])
  from load_value_post[OF ids2 mem2 refl lv] available_hd[OF a2]
  have r3: "r3 = Inr ?v" and d3: "db s3 = db s2" and f3: "faults s3 = tl (faults s2)"
    and c3: "clock s3 = clock s2" and t3: "ticks s3 = ticks s2"
    by auto
  have a3: "available s3" using a2 f3 by (rule available_tl_faults)
  have "update_counter f s n = (Inr ?v, s3)"
    by (simp add: update_counter_def g v cu r2 lv r3)
  then show ?thesis using a3 c3 c2 c1 d3 d2 t3 t2 g by simp
qed

lemma update_counter_trace:
  assumes ok: "table_ok (db s)" and g: "get_counter s n = (r1, s1)"
    and u: "update_counter f s n = (r, s')"
  shows "(r1 = Inl StorageError \<and> r = Inl StorageError \<and> s' = s1) \<or>
         (\<exists>c. r1 = Inr c \<and> clock s' = clock s1 \<and> ticks s' = ticks s1 \<and>
            ((r = Inl StorageError \<and> db s' = db s1 \<and> faults s1 \<noteq> [] \<and> hd (faults s1) \<and>
                faults s' = tl (faults s1)) \<or>
             (r = Inl StorageError \<and>
                db s' = (db s1)\<lparr>counters := set_value n (f (value_c c)) (counters (db s1))\<rparr> \<and>
                \<not> (faults s1 \<noteq> [] \<and> hd (faults s1)) \<and>
                tl (faults s1) \<noteq> [] \<and> hd (tl (faults s1)) \<and> faults s' = tl (tl (faults s1))) \<or>
             (r = Inr (f (value_c c)) \<and>
                db s' = (db s1)\<lparr>counters := set_value n (f (value_c c)) (counters (db s1))\<rparr> \<and>
                \<not> (faults s1 \<noteq> [] \<and> hd (faults s1)) \<and>
                \<not> (tl (faults s1) \<noteq> [] \<and> hd (tl (faults s1))) \<and> faults s' = tl (tl (faults s1)))))"
proof (cases r1)
  case (Inl e)
  then show ?thesis using g u by (cases e) (simp add: update_counter_def)
next
  case (Inr c)
  from get_counter_post[OF ok g] Inr
  have ok1: "table_ok (db s1)" and mem: "c \<in> set (counters (db s1))" and nm: "name c = n"
    by simp_all
  let ?v = "f (value_c c)"
  obtain r2 s2 where cu: "commit_update s1 (c\<lparr>value_c := ?v\<rparr>) = (r2, s2)"
    by (cases "commit_update s1 (c\<lparr>value_c := ?v\<rparr>)")
  note p2 = commit_update_post[OF ok1 mem cu]
  show ?thesis
  proof (cases r2)
    case (Inl e)
    then have "update_counter f s n = (Inl e, s2)"
      by (simp add: update_counter_def g Inr cu)
    with u p2 Inl Inr show ?thesis by auto
  next
    case r2: (Inr c')
    with p2 have c': "c' = c\<lparr>value_c := ?v\<rparr>"
      and d2: "db s2 = (db s1)\<lparr>counters := set_value n ?v (counters (db s1))\<rparr>"
      by (auto simp: nm)
    obtain r3 s3 where lv: "load_value s2 c' = (r3, s3)"
      by (cases "load_value s2 c'")
    have ids2: "distinct (map id_c (counters (db s2)))" using ok1 by (simp add: d2 table_ok_def)
    have mem2: "c' \<in> set (counters (db s2))"
      using mem nm by (auto simp: c' d2 set_value_def intro!: rev_image_eqI[of c])
    note p3 = load_value_post[OF ids2 mem2 refl lv]
    have "update_counter f s n = (r3, s3)"
      by (cases r3) (simp_all add: update_counter_def g Inr cu r2 lv)
    with u have "r = r3" "s' = s3" by simp_all
    with p2 p3 r2 Inr d2 c' show ?thesis by auto
  qed
qed

lemma update_counter_post:
  assumes "table_ok (db s)"
  shows "table_ok (db (snd (update_counter f s n))) \<and>
         others n (db (snd (update_counter f s n))) = others n (db s)"
proof -
  obtain r1 s1 where g: "get_counter s n = (r1, s1)" by (cases "get_counter s n")
  obtain r s' where u: "update_counter f s n = (r, s')" by (cases "update_counter f s n")
  from get_counter_post[OF assms g]
  have ok1: "table_ok (db s1)" and o1: "others n (db s1) = others n (db s)" by simp_all
  from update_counter_trace[OF assms g u] ok1 o1
  have "table_ok (db s') \<and> others n (db s') = others n (db s)"
    by (auto simp: others_def table_ok_set_value)
  then show ?thesis by (simp add: u)
qed

lemma update_counter_ok:
  assumes "available s" "table_ok (db s)"
  shows "fst (update_counter f s n) = Inr (f (stored_value (db s) n)) \<and>
         available (snd (update_counter f s n)) \<and>
         table_ok (db (snd (update_counter f s n))) \<and>
         clock (snd (update_counter f s n)) = clock s \<and>
         (\<exists>c. lookup (db (snd (update_counter f s n))) n = Some c \<and>
              value_c c = f (stored_value (db s) n)) \<and>
         stored_value (db (snd (update_counter f s n))) n = f (stored_value (db s) n)"
proof -
  obtain c s1 where g: "get_counter s n = (Inr c, s1)" and l1: "lookup (db s1) n = Some c"
    using get_counter_avail[OF assms, of n] by blast
  obtain s' where u: "update_counter f s n = (Inr (f (stored_value (db s) n)), s')"
    and a: "available s'" and c: "clock s' = clock s"
    and d: "db s' = (db s1)\<lparr>counters := set_value n (f (stored_value (db s) n)) (counters (db s1))\<rparr>"
    using update_counter_avail[OF assms, of f n] by (auto simp: g)
  have ok: "table_ok (db s')"
    using update_counter_post[OF assms(2), of f n] by (simp add: u)
  have l: "lookup (db s') n = Some (c\<lparr>value_c := f (stored_value (db s) n)\<rparr>)"
    using l1 by (simp add: d lookup_def find_set_value)
  show ?thesis using a ok c l by (simp add: u stored_value_def)
qed

lemma call_counter_update: "call_counter s n c = update_counter (\<lambda>v. v + step c) s n"
  by (cases c) (simp_all add: increment_counter_update decrement_counter_update)

lemma run_calls_ok:
  assumes "available s" "table_ok (db s)"
  shows "fst (run_calls s n cs) = Inr (running (stored_value (db s) n) cs) \<and>
         stored_value (db (snd (run_calls s n cs))) n = stored_value (db s) n + sum_list (map step cs) \<and>
         available (snd (run_calls s n cs)) \<and> table_ok (db (snd (run_calls s n cs)))"
  using assms
proof (induction cs arbitrary: s)
  case Nil
  then show ?case by simp
next
  case (Cons c cs)
  let ?u = "update_counter (\<lambda>v. v + step c) s n"
  obtain s1 where u: "?u = (Inr (stored_value (db s) n + step c), s1)"
    using update_counter_ok[OF Cons.prems, of "\<lambda>v. v + step c" n] by (cases ?u) simp
  from update_counter_ok[OF Cons.prems, of "\<lambda>v. v + step c" n] u
  have a1: "available s1" and ok1: "table_ok (db s1)"
    and v1: "stored_value (db s1) n = stored_value (db s) n + step c"
    by simp_all
  from Cons.IH[OF a1 ok1] obtain s2 where
    r: "run_calls s1 n cs = (Inr (running (stored_value (db s1) n) cs), s2)"
    and v2: "stored_value (db s2) n = stored_value (db s1) n + sum_list (map step cs)"
    and a2: "available s2" and ok2: "table_ok (db s2)"
    by (cases "run_calls s1 n cs") simp
  show ?case by (simp add: call_counter_update u r v1 v2 a2 ok2)
qed

lemma fails_Suc: "fails (Suc k) fs \<longleftrightarrow> fails k fs \<or> (drop k fs \<noteq> [] \<and> hd (drop k fs))"
  unfolding fails_def
  by (induction k arbitrary: fs) (case_tac fs; auto)+

lemma dropWhile_drop: "\<not> fails k fs \<Longrightarrow> dropWhile Not fs = dropWhile Not (drop k fs)"
  unfolding fails_def
  by (induction k arbitrary: fs) (case_tac fs; auto)+

lemma rest_Suc:
  "rest (Suc k) fs = (if fails k fs then rest k fs else tl (rest k fs))"
proof (cases "fails k fs")
  case True
  then show ?thesis by (simp add: rest_def fails_Suc)
next
  case False
  show ?thesis
  proof (cases "drop k fs \<noteq> [] \<and> hd (drop k fs)")
    case True
    then have "dropWhile Not (drop k fs) = drop k fs" by (cases "drop k fs") auto
    with True False show ?thesis by (simp add: rest_def fails_Suc dropWhile_drop)
  next
    case nf: False
    with False show ?thesis by (auto simp: rest_def fails_Suc drop_Suc tl_drop)
  qed
qed

lemma fails_mono: "fails k fs \<Longrightarrow> fails (Suc k) fs"
  by (simp add: fails_Suc)

lemma fails_next: "\<not> fails k fs \<Longrightarrow> fails (Suc k) fs \<longleftrightarrow> rest k fs \<noteq> [] \<and> hd (rest k fs)"
  by (simp add: fails_Suc rest_def)

lemma rest_same: "fails k fs \<Longrightarrow> rest (Suc k) fs = rest k fs"
  by (simp add: rest_Suc)

lemma rest_next: "\<not> fails k fs \<Longrightarrow> rest (Suc k) fs = tl (rest k fs)"
  by (simp add: rest_Suc)

lemma get_counter_fails:
  "(fst (get_counter s n) = Inl StorageError \<longleftrightarrow> fails (trips_get (db s) n) (faults s)) \<and>
   faults (snd (get_counter s n)) = rest (trips_get (db s) n) (faults s)"
  using get_counter_faults[of s n] by (simp add: fails_def rest_def)

lemma update_counter_fails:
  assumes "table_ok (db s)"
  shows "(fst (update_counter f s n) = Inl StorageError \<longleftrightarrow> fails (trips_update (db s) n) (faults s)) \<and>
         faults (snd (update_counter f s n)) = rest (trips_update (db s) n) (faults s)"
proof -
  let ?k = "trips_get (db s) n"
  let ?fs = "faults s"
  obtain r1 s1 where g: "get_counter s n = (r1, s1)" by (cases "get_counter s n")
  obtain r s' where u: "update_counter f s n = (r, s')" by (cases "update_counter f s n")
  from get_counter_fails[of s n] g
  have g1: "r1 = Inl StorageError \<longleftrightarrow> fails ?k ?fs" and g2: "faults s1 = rest ?k ?fs"
    by simp_all
  have k2: "trips_update (db s) n = Suc (Suc ?k)" by (simp add: trips_update_def)
  have "(r = Inl StorageError \<longleftrightarrow> fails (Suc (Suc ?k)) ?fs) \<and> faults s' = rest (Suc (Suc ?k)) ?fs"
  proof (cases "fails ?k ?fs")
    case True
    with update_counter_trace[OF assms g u] g1 g2 show ?thesis
      by (auto simp: fails_mono rest_same)
  next
    case nf: False
    show ?thesis
    proof (cases "rest ?k ?fs \<noteq> [] \<and> hd (rest ?k ?fs)")
      case True
      with nf have f1: "fails (Suc ?k) ?fs" by (simp add: fails_next)
      have "rest (Suc (Suc ?k)) ?fs = tl (rest ?k ?fs)"
        using f1 nf by (simp add: rest_same rest_next)
      with update_counter_trace[OF assms g u] g1 g2 nf True f1 show ?thesis
        by (auto simp: fails_mono)
    next
      case False
      with nf have nf1: "\<not> fails (Suc ?k) ?fs" by (simp add: fails_next)
      have r1: "rest (Suc ?k) ?fs = tl (rest ?k ?fs)" using nf by (simp add: rest_next)
      have r2: "rest (Suc (Suc ?k)) ?fs = tl (tl (rest ?k ?fs))"
        using nf1 r1 by (simp add: rest_next)
      have f2: "fails (Suc (Suc ?k)) ?fs \<longleftrightarrow> tl (rest ?k ?fs) \<noteq> [] \<and> hd (tl (rest ?k ?fs))"
        using nf1 r1 by (simp add: fails_next)
      from update_counter_trace[OF assms g u] g1 g2 nf False show ?thesis
        unfolding f2 r2 by auto
    qed
  qed
  then show ?thesis by (simp add: u k2)
qed

lemma no_faults_simps [simp]:
  "db (no_faults s) = db s" "clock (no_faults s) = clock s" "ticks (no_faults s) = ticks s"
  "available (no_faults s)"
  by (simp_all add: no_faults_def available_def)

lemma get_counter_existing:
  assumes "lookup (db s) n = Some c"
  shows "db (snd (get_counter s n)) = db s \<and> ticks (snd (get_counter s n)) = ticks s \<and>
         clock (snd (get_counter s n)) = clock s \<and>
         (fst (get_counter s n) = Inl StorageError \<or> fst (get_counter s n) = Inr c)"
  using assms
  unfolding get_counter_def exec_first_def round_trip_def lookup_def
  by (auto split: list.splits)

lemma update_counter_existing:
  assumes ok: "table_ok (db s)" and l: "lookup (db s) n = Some c"
  shows "ticks (snd (update_counter f s n)) = ticks s \<and>
         (\<exists>c'. lookup (db (snd (update_counter f s n))) n = Some c' \<and>
               id_c c' = id_c c \<and> name c' = name c \<and>
               created_at c' = created_at c \<and> updated_at c' = updated_at c)"
proof -
  obtain r1 s1 where g: "get_counter s n = (r1, s1)" by (cases "get_counter s n")
  obtain r s' where u: "update_counter f s n = (r, s')" by (cases "update_counter f s n")
  from get_counter_existing[OF l] g
  have d1: "db s1 = db s" and t1: "ticks s1 = ticks s" by simp_all
  from update_counter_trace[OF ok g u] d1 t1 l
  have "ticks s' = ticks s \<and> (\<exists>c'. lookup (db s') n = Some c' \<and>
               id_c c' = id_c c \<and> name c' = name c \<and>
               created_at c' = created_at c \<and> updated_at c' = updated_at c)"
    using get_counter_existing[OF l]
    by (auto simp: lookup_def find_set_value g)
  then show ?thesis by (simp add: u)
qed

lemma running_replicate:
  "running v (replicate k c) = map (\<lambda>i. v + int i * step c) [1..<Suc k]"
proof (induction k arbitrary: v)
  case 0
  then show ?case by simp
next
  case (Suc k)
  have "[1..<Suc (Suc k)] = 1 # map Suc [1..<Suc k]"
    by (simp add: upt_conv_Cons map_Suc_upt del: upt_Suc)
  then show ?case
    by (simp add: Suc.IH o_def algebra_simps del: upt_Suc)
qed

lemma update_counter_created:
  assumes "available s" and "table_ok (db s)" and "lookup (db s) n = None"
  shows "\<exists>c'. lookup (db (snd (update_counter f s n))) n = Some c' \<and>
           created_at c' = clock s (ticks s) \<and> updated_at c' = clock s (Suc (ticks s))"
proof -
  obtain c s1 where g: "get_counter s n = (Inr c, s1)" and l1: "lookup (db s1) n = Some c"
    and c: "created_at c = clock s (ticks s)" "updated_at c = clock s (Suc (ticks s))"
    using get_counter_avail[OF assms(1,2), of n] assms(3) by auto
  obtain s' where u: "update_counter f s n = (Inr (f (stored_value (db s) n)), s')"
    and d: "db s' = (db s1)\<lparr>counters := set_value n (f (stored_value (db s) n)) (counters (db s1))\<rparr>"
    using update_counter_avail[OF assms(1,2), of f n] by (auto simp: g)
  have "lookup (db s') n = Some (c\<lparr>value_c := f (stored_value (db s) n)\<rparr>)"
    using l1 by (simp add: d lookup_def find_set_value)
  then show ?thesis using c by (simp add: u)
qed

lemma table_ok_fresh: "table_ok fresh_db"
  by (simp add: table_ok_def fresh_db_def)

lemma fails_le: "k \<le> k' \<Longrightarrow> fails k fs \<Longrightarrow> fails k' fs"
  unfolding fails_def using set_take_subset_set_take[of k k' fs] by blast

lemma get_counter_db:
  assumes "table_ok (db s)"
  shows "(fails (trips_create (db s) n) (faults s) \<longrightarrow> db (snd (get_counter s n)) = db s) \<and>
         (\<not> fails (trips_create (db s) n) (faults s) \<longrightarrow>
            db (snd (get_counter s n)) = db (snd (get_counter (no_faults s) n)))"
  using assms
  unfolding get_counter_def exec_first_def commit_insert_def refresh_def round_trip_def
    new_Counter_def utcnow_def table_ok_def no_faults_def fails_def trips_create_def lookup_def
  by (auto simp: Let_def find_append id_below_find numeral_2_eq_2
      dest: find_mem find_None_notin split: list.splits if_splits option.splits prod.splits)

lemma update_counter_db:
  assumes ok: "table_ok (db s)"
  shows "(fails (trips_create (db s) n) (faults s) \<longrightarrow> db (snd (update_counter f s n)) = db s) \<and>
         (\<not> fails (trips_create (db s) n) (faults s) \<and> fails (trips_commit (db s) n) (faults s) \<longrightarrow>
            db (snd (update_counter f s n)) = db (snd (get_counter (no_faults s) n))) \<and>
         (\<not> fails (trips_commit (db s) n) (faults s) \<longrightarrow>
            db (snd (update_counter f s n)) = db (snd (update_counter f (no_faults s) n)))"
proof -
  let ?k = "trips_get (db s) n"
  let ?fs = "faults s"
  obtain r1 s1 where g: "get_counter s n = (r1, s1)" by (cases "get_counter s n")
  obtain r s' where u: "update_counter f s n = (r, s')" by (cases "update_counter f s n")
  let ?G = "get_counter (no_faults s) n"
  obtain c0 t1 where g0: "?G = (Inr c0, t1)" and v0: "value_c c0 = stored_value (db s) n"
    using get_counter_avail[of "no_faults s" n] ok by auto
  obtain t' where u0: "update_counter f (no_faults s) n = (Inr (f (stored_value (db s) n)), t')"
    and d0: "db t' = (db t1)\<lparr>counters := set_value n (f (stored_value (db s) n)) (counters (db t1))\<rparr>"
    using update_counter_avail[of "no_faults s" f n] ok by (auto simp: g0)
  from get_counter_fails[of s n] g
  have g1: "r1 = Inl StorageError \<longleftrightarrow> fails ?k ?fs" and g2: "faults s1 = rest ?k ?fs"
    by simp_all
  from get_counter_db[OF ok, of n] g g0
  have gd1: "fails (trips_create (db s) n) ?fs \<Longrightarrow> db s1 = db s"
    and gd2: "\<not> fails (trips_create (db s) n) ?fs \<Longrightarrow> db s1 = db t1"
    by simp_all
  have le: "trips_create (db s) n \<le> ?k" by (simp add: trips_create_def trips_get_def)
  have kc: "trips_commit (db s) n = Suc ?k" by (simp add: trips_commit_def)
  have "(fails (trips_create (db s) n) ?fs \<longrightarrow> db s' = db s) \<and>
        (\<not> fails (trips_create (db s) n) ?fs \<and> fails (Suc ?k) ?fs \<longrightarrow> db s' = db t1) \<and>
        (\<not> fails (Suc ?k) ?fs \<longrightarrow> db s' = db t')"
  proof (cases "fails ?k ?fs")
    case True
    with update_counter_trace[OF ok g u] g1 have "s' = s1" by auto
    with True gd1 gd2 show ?thesis by (auto simp: fails_mono)
  next
    case nf: False
    then have nc: "\<not> fails (trips_create (db s) n) ?fs" using fails_le[OF le] by blast
    from get_counter_cases[OF ok g] g0 g1 nf have c: "r1 = Inr c0" and d1: "db s1 = db t1"
      by auto
    from update_counter_trace[OF ok g u] c d1 v0 d0 g2 nf nc show ?thesis
      by (auto simp: fails_next)
  qed
  then show ?thesis by (simp add: u g0 u0 kc)
qed

lemma lookup_member:
  assumes "table_ok d" and "c \<in> set (counters d)"
  shows "lookup d (name c) = Some c"
  using assms find_key_distinct[of name "counters d" c]
  by (simp add: lookup_def table_ok_def)

lemma lookup_no_member: "n \<notin> name ` set (counters d) \<Longrightarrow> lookup d n = None"
  by (auto simp: lookup_def find_None_iff)

section \<open>Evaluation of concrete runs\<close>

lemmas run_defs =
  get_counter_def increment_counter_def decrement_counter_def reset_counter_def
  exec_first_def commit_insert_def commit_update_def refresh_def load_value_def
  round_trip_def new_Counter_def utcnow_def fresh_session_def fresh_db_def seed_def
  lookup_def stored_value_def table_ok_def id_below_def available_def others_def

lemma seed_fresh:
  "seed (fresh_session clk) nm v =
     \<lparr>db = \<lparr>counters = [\<lparr>id_c = Some 1, name = nm, value_c = v, created_at = clk 0,
                           updated_at = clk 1\<rparr>], next_id = 2\<rparr>,
      faults = [], clock = clk, ticks = 2\<rparr>"
  by (simp add: run_defs Let_def numeral_2_eq_2)

section \<open>The claims\<close>

text \<open>
  C1. For every sequence of increment and decrement calls on one name, run one after the
  other under normal availability on a well-formed table, every call returns the value
  stored before it plus 1 (increment) or minus 1 (decrement), so the returned values are
  the running sums from the starting value (0 when the name is not stored yet), and the
  value stored at the end is the starting value plus the sum of the +1 and -1 steps.
\<close>

theorem calls_sum:
  assumes "available s" and "table_ok (db s)"
  shows "fst (increment_counter s n) = Inr (stored_value (db s) n + 1) \<and>
         fst (decrement_counter s n) = Inr (stored_value (db s) n - 1) \<and>
         fst (run_calls s n cs) = Inr (running (stored_value (db s) n) cs) \<and>
         stored_value (db (snd (run_calls s n cs))) n
           = stored_value (db s) n + sum_list (map step cs)"
  using update_counter_ok[OF assms, of "\<lambda>v. v + 1" n]
    update_counter_ok[OF assms, of "\<lambda>v. v - 1" n]
    run_calls_ok[OF assms, of n cs]
  by (simp add: increment_counter_update decrement_counter_update)

theorem calls_sum_witness:
  "available (seed (fresh_session (\<lambda>k. k)) ''x'' 5) \<and>
   table_ok (db (seed (fresh_session (\<lambda>k. k)) ''x'' 5)) \<and>
   fst (run_calls (seed (fresh_session (\<lambda>k. k)) ''x'' 5) ''x'' [Increment, Decrement, Decrement])
     = Inr [6, 5, 4] \<and>
   stored_value (db (snd (run_calls (seed (fresh_session (\<lambda>k. k)) ''x'' 5) ''x''
     [Increment, Decrement, Decrement]))) ''x'' = 4 \<and>
   fst (run_calls (fresh_session (\<lambda>k. k)) ''y'' [Decrement, Increment, Increment]) = Inr [- 1, 0, 1]"
proof -
  let ?s = "seed (fresh_session (\<lambda>k. k)) ''x'' 5"
  have a: "available ?s" and t: "table_ok (db ?s)"
    by (simp_all add: seed_fresh available_def table_ok_def id_below_def)
  have a0: "available (fresh_session (\<lambda>k. k))" and t0: "table_ok (db (fresh_session (\<lambda>k. k)))"
    by (simp_all add: run_defs)
  have v: "stored_value (db ?s) ''x'' = 5"
    by (simp add: seed_fresh stored_value_def lookup_def)
  have v0: "stored_value (db (fresh_session (\<lambda>k. k))) ''y'' = 0"
    by (simp add: run_defs)
  show ?thesis
    using a t calls_sum[OF a t, of "''x''" "[Increment, Decrement, Decrement]"]
      calls_sum[OF a0 t0, of "''y''" "[Decrement, Increment, Increment]"]
    by (simp add: v v0)
qed

text \<open>
  C2. Under normal availability on a well-formed table: when no counter is stored under
  the name, \<open>get_counter\<close> appends exactly one record with that name and value 0 and
  returns it, and a second call returns that same record (same primary key, same
  fields) and leaves the table as it is; when a counter is stored under the name,
  \<open>get_counter\<close> returns it and leaves the table as it is.
\<close>

theorem get_or_create:
  assumes "available s" and "table_ok (db s)"
  shows "case lookup (db s) n of
           None \<Rightarrow>
             (\<exists>c s'. get_counter s n = (Inr c, s') \<and> name c = n \<and> value_c c = 0 \<and>
                counters (db s') = counters (db s) @ [c] \<and> lookup (db s') n = Some c \<and>
                fst (get_counter s' n) = Inr c \<and> db (snd (get_counter s' n)) = db s')
         | Some c \<Rightarrow>
             fst (get_counter s n) = Inr c \<and> db (snd (get_counter s n)) = db s"
proof (cases "lookup (db s) n")
  case None
  obtain c s1 where g: "get_counter s n = (Inr c, s1)" and a1: "available s1"
    and l1: "lookup (db s1) n = Some c"
    and c: "c = \<lparr>id_c = Some (next_id (db s)), name = n, value_c = 0,
                 created_at = clock s (ticks s), updated_at = clock s (Suc (ticks s))\<rparr>"
    and d1: "db s1 = \<lparr>counters = counters (db s) @ [c], next_id = Suc (next_id (db s))\<rparr>"
    using get_counter_avail[OF assms, of n] None by auto
  have ok1: "table_ok (db s1)" using get_counter_post[OF assms(2) g] by simp
  have "fst (get_counter s1 n) = Inr c \<and> db (snd (get_counter s1 n)) = db s1"
    using get_counter_avail[OF a1 ok1, of n] l1 by auto
  with g l1 c d1 have "\<exists>c s'. get_counter s n = (Inr c, s') \<and> name c = n \<and> value_c c = 0 \<and>
                counters (db s') = counters (db s) @ [c] \<and> lookup (db s') n = Some c \<and>
                fst (get_counter s' n) = Inr c \<and> db (snd (get_counter s' n)) = db s'"
    by (intro exI[of _ c] exI[of _ s1]) simp
  with None show ?thesis by simp
next
  case (Some c)
  then show ?thesis using get_counter_avail[OF assms, of n] by auto
qed

theorem get_or_create_witness:
  "available (fresh_session (\<lambda>k. k)) \<and> table_ok (db (fresh_session (\<lambda>k. k))) \<and>
   (\<exists>c s'. get_counter (fresh_session (\<lambda>k. k)) ''x'' = (Inr c, s') \<and> name c = ''x'' \<and>
      value_c c = 0 \<and> counters (db s') = [c] \<and> fst (get_counter s' ''x'') = Inr c \<and>
      db (snd (get_counter s' ''x'')) = db s') \<and>
   fst (get_counter (seed (fresh_session (\<lambda>k. k)) ''existing'' 42) ''existing'')
     = Inr \<lparr>id_c = Some 1, name = ''existing'', value_c = 42, created_at = 0, updated_at = 1\<rparr>"
proof -
  let ?s = "fresh_session (\<lambda>k. k)"
  let ?t = "seed ?s ''existing'' 42"
  have a: "available ?s" and t: "table_ok (db ?s)" and l: "lookup (db ?s) ''x'' = None"
    and d: "counters (db ?s) = []"
    by (simp_all add: run_defs)
  have a2: "available ?t" and t2: "table_ok (db ?t)"
    and l2: "lookup (db ?t) ''existing'' =
      Some \<lparr>id_c = Some 1, name = ''existing'', value_c = 42, created_at = 0, updated_at = 1\<rparr>"
    by (simp_all add: seed_fresh available_def table_ok_def id_below_def lookup_def)
  show ?thesis
    using a t get_or_create[OF a t, of "''x''"] get_or_create[OF a2 t2, of "''existing''"]
    unfolding l l2 d by auto
qed

text \<open>
  C3. Under normal availability on a well-formed table, \<open>reset_counter\<close> returns 0 and
  afterwards a record is stored under the name with value 0, whatever was stored
  before and also when nothing was.
\<close>

theorem reset_yields_zero:
  assumes "available s" and "table_ok (db s)"
  shows "fst (reset_counter s n) = Inr 0 \<and>
         (\<exists>c. lookup (db (snd (reset_counter s n))) n = Some c \<and> value_c c = 0) \<and>
         stored_value (db (snd (reset_counter s n))) n = 0"
  using update_counter_ok[OF assms, of "\<lambda>v. 0" n]
  by (simp add: reset_counter_update)

theorem reset_yields_zero_witness:
  "available (seed (fresh_session (\<lambda>k. k)) ''x'' (- 7)) \<and>
   table_ok (db (seed (fresh_session (\<lambda>k. k)) ''x'' (- 7))) \<and>
   stored_value (db (seed (fresh_session (\<lambda>k. k)) ''x'' (- 7))) ''x'' = - 7 \<and>
   fst (reset_counter (seed (fresh_session (\<lambda>k. k)) ''x'' (- 7)) ''x'') = Inr 0 \<and>
   stored_value (db (snd (reset_counter (seed (fresh_session (\<lambda>k. k)) ''x'' (- 7)) ''x''))) ''x'' = 0 \<and>
   lookup (db (seed (fresh_session (\<lambda>k. k)) ''x'' (- 7))) ''y'' = None \<and>
   fst (reset_counter (seed (fresh_session (\<lambda>k. k)) ''x'' (- 7)) ''y'') = Inr 0 \<and>
   lookup (db (snd (reset_counter (seed (fresh_session (\<lambda>k. k)) ''x'' (- 7)) ''y''))) ''y'' \<noteq> None"
proof -
  let ?s = "seed (fresh_session (\<lambda>k. k)) ''x'' (- 7)"
  have a: "available ?s" and t: "table_ok (db ?s)"
    and v: "stored_value (db ?s) ''x'' = - 7" and l: "lookup (db ?s) ''y'' = None"
    by (simp_all add: seed_fresh available_def table_ok_def id_below_def lookup_def stored_value_def)
  show ?thesis
    using a t v l reset_yields_zero[OF a t, of "''x''"] reset_yields_zero[OF a t, of "''y''"]
    by auto
qed

text \<open>
  C4. On a well-formed table, each of the four operations on a name, whether it
  succeeds or fails, leaves the records stored under every other name exactly as they
  were: the same records with all their fields, in the same order, and none added.
\<close>

theorem other_names_untouched:
  assumes "table_ok (db s)"
  shows "others n (db (snd (get_counter s n))) = others n (db s) \<and>
         others n (db (snd (increment_counter s n))) = others n (db s) \<and>
         others n (db (snd (decrement_counter s n))) = others n (db s) \<and>
         others n (db (snd (reset_counter s n))) = others n (db s)"
proof -
  obtain r s1 where g: "get_counter s n = (r, s1)" by (cases "get_counter s n")
  from get_counter_post[OF assms g] have "others n (db (snd (get_counter s n))) = others n (db s)"
    by (simp add: g)
  then show ?thesis
    using update_counter_post[OF assms]
    by (simp add: increment_counter_update decrement_counter_update reset_counter_update)
qed

theorem other_names_untouched_witness:
  "table_ok (db (seed (fresh_session (\<lambda>k. k)) ''a'' 3)) \<and>
   others ''b'' (db (seed (fresh_session (\<lambda>k. k)) ''a'' 3))
     = [\<lparr>id_c = Some 1, name = ''a'', value_c = 3, created_at = 0, updated_at = 1\<rparr>] \<and>
   others ''b'' (db (snd (increment_counter (seed (fresh_session (\<lambda>k. k)) ''a'' 3) ''b'')))
     = [\<lparr>id_c = Some 1, name = ''a'', value_c = 3, created_at = 0, updated_at = 1\<rparr>] \<and>
   others ''b'' (db (snd (reset_counter (seed (fresh_session (\<lambda>k. k)) ''a'' 3) ''b'')))
     = [\<lparr>id_c = Some 1, name = ''a'', value_c = 3, created_at = 0, updated_at = 1\<rparr>]"
proof -
  let ?s = "seed (fresh_session (\<lambda>k. k)) ''a'' 3"
  have t: "table_ok (db ?s)"
    and o: "others ''b'' (db ?s)
       = [\<lparr>id_c = Some 1, name = ''a'', value_c = 3, created_at = 0, updated_at = 1\<rparr>]"
    by (simp_all add: seed_fresh table_ok_def id_below_def others_def)
  show ?thesis
    using t o other_names_untouched[OF t, of "''b''"] by simp
qed

text \<open>
  C5. No operation catches or retries. On a well-formed table, each of the four
  operations returns \<open>StorageError\<close> exactly when one of the round trips it performs
  fails, and it stops there: the outcomes it leaves for later calls are those after the
  first failure, or those after its own round trips when none fails. Under normal
  availability \<open>get_counter\<close> returns a counter.
\<close>

theorem failures_propagate:
  assumes "table_ok (db s)"
  shows "(fst (get_counter s n) = Inl StorageError \<longleftrightarrow> fails (trips_get (db s) n) (faults s)) \<and>
         faults (snd (get_counter s n)) = rest (trips_get (db s) n) (faults s) \<and>
         (fst (increment_counter s n) = Inl StorageError
            \<longleftrightarrow> fails (trips_update (db s) n) (faults s)) \<and>
         faults (snd (increment_counter s n)) = rest (trips_update (db s) n) (faults s) \<and>
         (fst (decrement_counter s n) = Inl StorageError
            \<longleftrightarrow> fails (trips_update (db s) n) (faults s)) \<and>
         faults (snd (decrement_counter s n)) = rest (trips_update (db s) n) (faults s) \<and>
         (fst (reset_counter s n) = Inl StorageError
            \<longleftrightarrow> fails (trips_update (db s) n) (faults s)) \<and>
         faults (snd (reset_counter s n)) = rest (trips_update (db s) n) (faults s) \<and>
         (available s \<longrightarrow> (\<exists>c. fst (get_counter s n) = Inr c))"
proof -
  have "available s \<longrightarrow> (\<exists>c. fst (get_counter s n) = Inr c)"
    using get_counter_avail[OF _ assms, of n] by auto
  then show ?thesis
    using get_counter_fails[of s n] update_counter_fails[OF assms, of _ n]
    by (simp add: increment_counter_update decrement_counter_update reset_counter_update)
qed

theorem failures_propagate_witness:
  "table_ok (db ((fresh_session (\<lambda>k. k))\<lparr>faults := [False, True, False, True]\<rparr>)) \<and>
   fst (get_counter ((fresh_session (\<lambda>k. k))\<lparr>faults := [False, True, False, True]\<rparr>) ''x'')
     = Inl StorageError \<and>
   faults (snd (get_counter ((fresh_session (\<lambda>k. k))\<lparr>faults := [False, True, False, True]\<rparr>) ''x''))
     = [False, True] \<and>
   fst (reset_counter ((fresh_session (\<lambda>k. k))\<lparr>faults := [False, True, False, True]\<rparr>) ''x'')
     = Inl StorageError \<and>
   faults (snd (reset_counter ((fresh_session (\<lambda>k. k))\<lparr>faults := [False, True, False, True]\<rparr>) ''x''))
     = [False, True] \<and>
   table_ok (db ((seed (fresh_session (\<lambda>k. k)) ''x'' 2)\<lparr>faults := [False, False, True, False]\<rparr>)) \<and>
   fst (get_counter ((seed (fresh_session (\<lambda>k. k)) ''x'' 2)\<lparr>faults := [False, False, True, False]\<rparr>) ''x'')
     \<noteq> Inl StorageError \<and>
   fst (increment_counter ((seed (fresh_session (\<lambda>k. k)) ''x'' 2)\<lparr>faults := [False, False, True, False]\<rparr>) ''x'')
     = Inl StorageError \<and>
   faults (snd (increment_counter ((seed (fresh_session (\<lambda>k. k)) ''x'' 2)\<lparr>faults := [False, False, True, False]\<rparr>) ''x''))
     = [False] \<and>
   available (fresh_session (\<lambda>k. k)) \<and>
   (\<exists>c. fst (get_counter (fresh_session (\<lambda>k. k)) ''x'') = Inr c)"
proof -
  let ?s = "(fresh_session (\<lambda>k. k))\<lparr>faults := [False, True, False, True]\<rparr>"
  let ?t = "(seed (fresh_session (\<lambda>k. k)) ''x'' 2)\<lparr>faults := [False, False, True, False]\<rparr>"
  let ?u = "fresh_session (\<lambda>k. k)"
  have ts: "table_ok (db ?s)" and tu: "table_ok (db ?u)" and au: "available ?u"
    by (simp_all add: run_defs)
  have tt: "table_ok (db ?t)"
    by (simp add: seed_fresh table_ok_def id_below_def)
  have ks: "trips_get (db ?s) ''x'' = 3" "trips_update (db ?s) ''x'' = 5"
    by (simp_all add: trips_get_def trips_update_def run_defs)
  have kt: "trips_get (db ?t) ''x'' = 1" "trips_update (db ?t) ''x'' = 3"
    by (simp_all add: trips_get_def trips_update_def seed_fresh lookup_def)
  have fs: "faults ?s = [False, True, False, True]" and ft: "faults ?t = [False, False, True, False]"
    by simp_all
  show ?thesis
    using ts tt au failures_propagate[OF ts, of "''x''"] failures_propagate[OF tt, of "''x''"]
      failures_propagate[OF tu, of "''x''"]
    unfolding ks kt fs ft
    by (simp add: fails_def rest_def eval_nat_numeral)
qed

text \<open>
  C6 as stated fails. On a fresh database, \<open>increment_counter\<close> for ``x'' whose fourth
  round trip fails (the commit of the UPDATE, after the SELECT, the commit of the
  INSERT and the refresh succeeded) returns \<open>StorageError\<close>, and the table that was
  empty now holds a record ``x'' with value 0.
\<close>

theorem all_or_nothing_counterexample:
  "fst (increment_counter ((fresh_session (\<lambda>k. k))\<lparr>faults := [False, False, False, True]\<rparr>) ''x'')
     = Inl StorageError \<and>
   counters (db ((fresh_session (\<lambda>k. k))\<lparr>faults := [False, False, False, True]\<rparr>)) = [] \<and>
   map name (counters (db (snd (increment_counter
     ((fresh_session (\<lambda>k. k))\<lparr>faults := [False, False, False, True]\<rparr>) ''x'')))) = [''x''] \<and>
   map value_c (counters (db (snd (increment_counter
     ((fresh_session (\<lambda>k. k))\<lparr>faults := [False, False, False, True]\<rparr>) ''x'')))) = [0]"
  by (simp add: run_defs Let_def)

text \<open>
  C6, amended. Each commit is all-or-nothing, but an operation on a name that is not
  stored commits twice. On a well-formed table and for every fault schedule: a failure
  up to and including the commit of the INSERT leaves the database exactly as it was; a
  mutator whose first failure comes after that and up to and including the commit of
  its UPDATE leaves the database exactly as a successful \<open>get_counter\<close> for the name
  leaves it, which is the prior database for a stored name and the prior table with one
  new record of value 0 for a name that was not stored; a mutator that fails only in
  the final reload of the value leaves the database exactly as the successful mutator
  leaves it. \<open>get_counter\<close> that fails in its refresh leaves the new record behind.
\<close>

theorem failed_call_states:
  assumes "table_ok (db s)"
  shows "(fails (trips_create (db s) n) (faults s) \<longrightarrow>
            db (snd (get_counter s n)) = db s \<and>
            db (snd (increment_counter s n)) = db s \<and>
            db (snd (decrement_counter s n)) = db s \<and>
            db (snd (reset_counter s n)) = db s) \<and>
         (\<not> fails (trips_create (db s) n) (faults s) \<longrightarrow>
            db (snd (get_counter s n)) = db (snd (get_counter (no_faults s) n))) \<and>
         (\<not> fails (trips_create (db s) n) (faults s) \<and>
          fails (trips_commit (db s) n) (faults s) \<longrightarrow>
            db (snd (increment_counter s n)) = db (snd (get_counter (no_faults s) n)) \<and>
            db (snd (decrement_counter s n)) = db (snd (get_counter (no_faults s) n)) \<and>
            db (snd (reset_counter s n)) = db (snd (get_counter (no_faults s) n))) \<and>
         (\<not> fails (trips_commit (db s) n) (faults s) \<longrightarrow>
            db (snd (increment_counter s n)) = db (snd (increment_counter (no_faults s) n)) \<and>
            db (snd (decrement_counter s n)) = db (snd (decrement_counter (no_faults s) n)) \<and>
            db (snd (reset_counter s n)) = db (snd (reset_counter (no_faults s) n))) \<and>
         (fst (get_counter s n) = Inl StorageError
            \<longleftrightarrow> fails (trips_get (db s) n) (faults s)) \<and>
         (fst (increment_counter s n) = Inl StorageError
            \<longleftrightarrow> fails (Suc (trips_commit (db s) n)) (faults s)) \<and>
         (fst (decrement_counter s n) = Inl StorageError
            \<longleftrightarrow> fails (Suc (trips_commit (db s) n)) (faults s)) \<and>
         (fst (reset_counter s n) = Inl StorageError
            \<longleftrightarrow> fails (Suc (trips_commit (db s) n)) (faults s)) \<and>
         (lookup (db s) n \<noteq> None \<longrightarrow> db (snd (get_counter (no_faults s) n)) = db s) \<and>
         (lookup (db s) n = None \<longrightarrow>
            (\<exists>c. counters (db (snd (get_counter (no_faults s) n))) = counters (db s) @ [c] \<and>
                 name c = n \<and> value_c c = 0))"
proof -
  have ex: "lookup (db s) n \<noteq> None \<longrightarrow> db (snd (get_counter (no_faults s) n)) = db s"
    using get_counter_existing[of "no_faults s" n] by auto
  have new: "lookup (db s) n = None \<longrightarrow>
            (\<exists>c. counters (db (snd (get_counter (no_faults s) n))) = counters (db s) @ [c] \<and>
                 name c = n \<and> value_c c = 0)"
    using get_counter_avail[of "no_faults s" n] assms by auto
  have k: "Suc (trips_commit (db s) n) = trips_update (db s) n"
    by (simp add: trips_commit_def trips_update_def)
  show ?thesis
    unfolding k
    using ex new get_counter_db[OF assms, of n] update_counter_db[OF assms, of n]
      get_counter_fails[of s n] update_counter_fails[OF assms, of _ n]
    by (simp add: increment_counter_update decrement_counter_update reset_counter_update)
qed

theorem failed_call_states_witness:
  "table_ok (db ((fresh_session (\<lambda>k. k))\<lparr>faults := [False, True]\<rparr>)) \<and>
   fst (increment_counter ((fresh_session (\<lambda>k. k))\<lparr>faults := [False, True]\<rparr>) ''x'')
     = Inl StorageError \<and>
   db (snd (increment_counter ((fresh_session (\<lambda>k. k))\<lparr>faults := [False, True]\<rparr>) ''x''))
     = db ((fresh_session (\<lambda>k. k))\<lparr>faults := [False, True]\<rparr>) \<and>
   table_ok (db ((fresh_session (\<lambda>k. k))\<lparr>faults := [False, False, False, True]\<rparr>)) \<and>
   fst (increment_counter ((fresh_session (\<lambda>k. k))\<lparr>faults := [False, False, False, True]\<rparr>) ''x'')
     = Inl StorageError \<and>
   db (snd (increment_counter ((fresh_session (\<lambda>k. k))\<lparr>faults := [False, False, False, True]\<rparr>) ''x''))
     = db (snd (get_counter (no_faults ((fresh_session (\<lambda>k. k))\<lparr>faults := [False, False, False, True]\<rparr>)) ''x'')) \<and>
   table_ok (db ((seed (fresh_session (\<lambda>k. k)) ''x'' 5)\<lparr>faults := [False, True]\<rparr>)) \<and>
   fst (reset_counter ((seed (fresh_session (\<lambda>k. k)) ''x'' 5)\<lparr>faults := [False, True]\<rparr>) ''x'')
     = Inl StorageError \<and>
   db (snd (reset_counter ((seed (fresh_session (\<lambda>k. k)) ''x'' 5)\<lparr>faults := [False, True]\<rparr>) ''x''))
     = db ((seed (fresh_session (\<lambda>k. k)) ''x'' 5)\<lparr>faults := [False, True]\<rparr>) \<and>
   table_ok (db ((seed (fresh_session (\<lambda>k. k)) ''x'' 5)\<lparr>faults := [False, False, True]\<rparr>)) \<and>
   fst (reset_counter ((seed (fresh_session (\<lambda>k. k)) ''x'' 5)\<lparr>faults := [False, False, True]\<rparr>) ''x'')
     = Inl StorageError \<and>
   db (snd (reset_counter ((seed (fresh_session (\<lambda>k. k)) ''x'' 5)\<lparr>faults := [False, False, True]\<rparr>) ''x''))
     = db (snd (reset_counter (no_faults
         ((seed (fresh_session (\<lambda>k. k)) ''x'' 5)\<lparr>faults := [False, False, True]\<rparr>)) ''x''))"
proof -
  let ?a = "(fresh_session (\<lambda>k. k))\<lparr>faults := [False, True]\<rparr>"
  let ?b = "(fresh_session (\<lambda>k. k))\<lparr>faults := [False, False, False, True]\<rparr>"
  let ?c = "(seed (fresh_session (\<lambda>k. k)) ''x'' 5)\<lparr>faults := [False, True]\<rparr>"
  let ?d = "(seed (fresh_session (\<lambda>k. k)) ''x'' 5)\<lparr>faults := [False, False, True]\<rparr>"
  have ta: "table_ok (db ?a)" and tb: "table_ok (db ?b)"
    by (simp_all add: run_defs)
  have tc: "table_ok (db ?c)" and td: "table_ok (db ?d)"
    by (simp_all add: seed_fresh table_ok_def id_below_def)
  have ka: "trips_create (db ?a) ''x'' = 2" "trips_commit (db ?a) ''x'' = 4"
    "trips_get (db ?a) ''x'' = 3"
    and kb: "trips_create (db ?b) ''x'' = 2" "trips_commit (db ?b) ''x'' = 4"
    "trips_get (db ?b) ''x'' = 3"
    by (simp_all add: trips_create_def trips_commit_def trips_get_def run_defs)
  have kc: "trips_create (db ?c) ''x'' = 0" "trips_commit (db ?c) ''x'' = 2"
    "trips_get (db ?c) ''x'' = 1"
    and kd: "trips_create (db ?d) ''x'' = 0" "trips_commit (db ?d) ''x'' = 2"
    "trips_get (db ?d) ''x'' = 1"
    by (simp_all add: trips_create_def trips_commit_def trips_get_def seed_fresh lookup_def)
  have f: "faults ?a = [False, True]" "faults ?b = [False, False, False, True]"
    "faults ?c = [False, True]" "faults ?d = [False, False, True]"
    by simp_all
  have l: "lookup (db ?c) ''x'' \<noteq> None"
    by (simp add: seed_fresh lookup_def)
  show ?thesis
    using ta tb tc td l failed_call_states[OF ta, of "''x''"] failed_call_states[OF tb, of "''x''"]
      failed_call_states[OF tc, of "''x''"] failed_call_states[OF td, of "''x''"]
    unfolding ka kb kc kd f
    by (simp add: fails_def eval_nat_numeral no_faults_def)
qed

text \<open>
  C7 as stated fails. A counter created when the clock read 100 and 101 is incremented
  when the clock reads 102: the call returns 1 and stores the value 1, the stored
  \<open>updated_at\<close> is still 101, and the clock has not been read.
\<close>

theorem updated_at_counterexample:
  "fst (increment_counter (seed (fresh_session (\<lambda>k. 100 + k)) ''x'' 0) ''x'') = Inr 1 \<and>
   map value_c (counters (db (snd (increment_counter
     (seed (fresh_session (\<lambda>k. 100 + k)) ''x'' 0) ''x'')))) = [1] \<and>
   map updated_at (counters (db (seed (fresh_session (\<lambda>k. 100 + k)) ''x'' 0))) = [101] \<and>
   map updated_at (counters (db (snd (increment_counter
     (seed (fresh_session (\<lambda>k. 100 + k)) ''x'' 0) ''x'')))) = [101] \<and>
   clock (seed (fresh_session (\<lambda>k. 100 + k)) ''x'' 0)
     (ticks (seed (fresh_session (\<lambda>k. 100 + k)) ''x'' 0)) = 102 \<and>
   ticks (snd (increment_counter (seed (fresh_session (\<lambda>k. 100 + k)) ''x'' 0) ''x''))
     = ticks (seed (fresh_session (\<lambda>k. 100 + k)) ''x'' 0)"
  unfolding seed_fresh by (simp add: run_defs Let_def)

text \<open>
  C7, amended. \<open>created_at\<close> and \<open>updated_at\<close> are both set when the record is created,
  from two consecutive readings of the clock, also when the creation happens inside a
  mutator; on a well-formed table, increment, decrement and reset of a stored counter
  change neither timestamp and do not read the clock, whether they succeed or fail.
\<close>

theorem timestamps_fixed_at_creation:
  assumes "table_ok (db s)"
  shows "(available s \<and> lookup (db s) n = None \<longrightarrow>
           (\<exists>c. fst (get_counter s n) = Inr c \<and>
                lookup (db (snd (get_counter s n))) n = Some c \<and>
                created_at c = clock s (ticks s) \<and> updated_at c = clock s (Suc (ticks s))) \<and>
           (\<exists>c. lookup (db (snd (increment_counter s n))) n = Some c \<and>
                created_at c = clock s (ticks s) \<and> updated_at c = clock s (Suc (ticks s))) \<and>
           (\<exists>c. lookup (db (snd (decrement_counter s n))) n = Some c \<and>
                created_at c = clock s (ticks s) \<and> updated_at c = clock s (Suc (ticks s))) \<and>
           (\<exists>c. lookup (db (snd (reset_counter s n))) n = Some c \<and>
                created_at c = clock s (ticks s) \<and> updated_at c = clock s (Suc (ticks s)))) \<and>
         (\<forall>c. lookup (db s) n = Some c \<longrightarrow>
           ticks (snd (increment_counter s n)) = ticks s \<and>
           (\<exists>c'. lookup (db (snd (increment_counter s n))) n = Some c' \<and>
                 created_at c' = created_at c \<and> updated_at c' = updated_at c) \<and>
           ticks (snd (decrement_counter s n)) = ticks s \<and>
           (\<exists>c'. lookup (db (snd (decrement_counter s n))) n = Some c' \<and>
                 created_at c' = created_at c \<and> updated_at c' = updated_at c) \<and>
           ticks (snd (reset_counter s n)) = ticks s \<and>
           (\<exists>c'. lookup (db (snd (reset_counter s n))) n = Some c' \<and>
                 created_at c' = created_at c \<and> updated_at c' = updated_at c))"
proof -
  have new: "available s \<and> lookup (db s) n = None \<longrightarrow>
           (\<exists>c. fst (get_counter s n) = Inr c \<and>
                lookup (db (snd (get_counter s n))) n = Some c \<and>
                created_at c = clock s (ticks s) \<and> updated_at c = clock s (Suc (ticks s)))"
    using get_counter_avail[OF _ assms, of n] by auto
  have old: "\<forall>c. lookup (db s) n = Some c \<longrightarrow>
           ticks (snd (update_counter f s n)) = ticks s \<and>
           (\<exists>c'. lookup (db (snd (update_counter f s n))) n = Some c' \<and>
                 created_at c' = created_at c \<and> updated_at c' = updated_at c)" for f
    using update_counter_existing[OF assms, of n _ f] by blast
  show ?thesis
    unfolding increment_counter_update decrement_counter_update reset_counter_update
    using new old update_counter_created[OF _ assms, of n]
    by blast
qed

theorem timestamps_fixed_at_creation_witness:
  "table_ok (db (fresh_session (\<lambda>k. 100 + k))) \<and>
   available (fresh_session (\<lambda>k. 100 + k)) \<and>
   lookup (db (fresh_session (\<lambda>k. 100 + k))) ''x'' = None \<and>
   (\<exists>c. lookup (db (snd (increment_counter (fresh_session (\<lambda>k. 100 + k)) ''x''))) ''x'' = Some c \<and>
        created_at c = 100 \<and> updated_at c = 101) \<and>
   table_ok (db (seed (fresh_session (\<lambda>k. 100 + k)) ''x'' 0)) \<and>
   (\<exists>c. lookup (db (snd (reset_counter (seed (fresh_session (\<lambda>k. 100 + k)) ''x'' 0) ''x''))) ''x''
          = Some c \<and> created_at c = 100 \<and> updated_at c = 101) \<and>
   ticks (snd (reset_counter (seed (fresh_session (\<lambda>k. 100 + k)) ''x'' 0) ''x'')) = 2"
proof -
  let ?s = "fresh_session (\<lambda>k. 100 + k)"
  let ?t = "seed ?s ''x'' 0"
  have a: "available ?s" and t: "table_ok (db ?s)" and l: "lookup (db ?s) ''x'' = None"
    and c: "clock ?s (ticks ?s) = 100" "clock ?s (Suc (ticks ?s)) = 101"
    by (simp_all add: run_defs)
  have t2: "table_ok (db ?t)" and k2: "ticks ?t = 2"
    and l2: "lookup (db ?t) ''x'' =
       Some \<lparr>id_c = Some 1, name = ''x'', value_c = 0, created_at = 100, updated_at = 101\<rparr>"
    by (simp_all add: seed_fresh table_ok_def id_below_def lookup_def)
  show ?thesis
    using a t l t2 timestamps_fixed_at_creation[OF t, of "''x''"]
      timestamps_fixed_at_creation[OF t2, of "''x''"]
    unfolding l2 c k2 by auto
qed

text \<open>
  C8. Names are compared exactly. Under normal availability on a well-formed table, a
  stored record is found by its own name, unchanged, and an increment continues from
  its value; a name that no stored record carries, even if it differs from a stored
  one only in case, gets a new record with value 0 and its first increment returns 1.
  On a fresh database, whatever the clock reads, incrementing ``Test'', ``test'' and
  ``TEST'' returns 1 each time and leaves three records with three primary keys, and
  \<open>get_counter\<close> then returns for each name its own record with value 1.
\<close>

theorem case_sensitive_names:
  "(available s \<and> table_ok (db s) \<longrightarrow>
      (\<forall>c \<in> set (counters (db s)). name c = n \<longrightarrow>
          fst (get_counter s n) = Inr c \<and> db (snd (get_counter s n)) = db s \<and>
          fst (increment_counter s n) = Inr (value_c c + 1)) \<and>
      (n \<notin> name ` set (counters (db s)) \<longrightarrow>
          (\<exists>c. fst (get_counter s n) = Inr c \<and> name c = n \<and> value_c c = 0 \<and>
               counters (db (snd (get_counter s n))) = counters (db s) @ [c]) \<and>
          fst (increment_counter s n) = Inr 1)) \<and>
   fst (increment_counter (fresh_session clk) ''Test'') = Inr 1 \<and>
   fst (increment_counter (snd (increment_counter (fresh_session clk) ''Test'')) ''test'') = Inr 1 \<and>
   fst (increment_counter (snd (increment_counter (snd (increment_counter
          (fresh_session clk) ''Test'')) ''test'')) ''TEST'') = Inr 1 \<and>
   db (snd (increment_counter (snd (increment_counter (snd (increment_counter
          (fresh_session clk) ''Test'')) ''test'')) ''TEST''))
     = \<lparr>counters =
          [\<lparr>id_c = Some 1, name = ''Test'', value_c = 1, created_at = clk 0, updated_at = clk 1\<rparr>,
           \<lparr>id_c = Some 2, name = ''test'', value_c = 1, created_at = clk 2, updated_at = clk 3\<rparr>,
           \<lparr>id_c = Some 3, name = ''TEST'', value_c = 1, created_at = clk 4, updated_at = clk 5\<rparr>],
        next_id = 4\<rparr> \<and>
   fst (get_counter (snd (increment_counter (snd (increment_counter (snd (increment_counter
          (fresh_session clk) ''Test'')) ''test'')) ''TEST'')) ''Test'')
     = Inr \<lparr>id_c = Some 1, name = ''Test'', value_c = 1, created_at = clk 0, updated_at = clk 1\<rparr> \<and>
   fst (get_counter (snd (increment_counter (snd (increment_counter (snd (increment_counter
          (fresh_session clk) ''Test'')) ''test'')) ''TEST'')) ''test'')
     = Inr \<lparr>id_c = Some 2, name = ''test'', value_c = 1, created_at = clk 2, updated_at = clk 3\<rparr> \<and>
   fst (get_counter (snd (increment_counter (snd (increment_counter (snd (increment_counter
          (fresh_session clk) ''Test'')) ''test'')) ''TEST'')) ''TEST'')
     = Inr \<lparr>id_c = Some 3, name = ''TEST'', value_c = 1, created_at = clk 4, updated_at = clk 5\<rparr>"
proof -
  let ?r1 = "\<lparr>id_c = Some 1, name = ''Test'', value_c = 1, created_at = clk 0, updated_at = clk 1\<rparr>"
  let ?r2 = "\<lparr>id_c = Some 2, name = ''test'', value_c = 1, created_at = clk 2, updated_at = clk 3\<rparr>"
  let ?r3 = "\<lparr>id_c = Some 3, name = ''TEST'', value_c = 1, created_at = clk 4, updated_at = clk 5\<rparr>"
  let ?s1 = "\<lparr>db = \<lparr>counters = [?r1], next_id = 2\<rparr>, faults = [], clock = clk, ticks = 2\<rparr>"
  let ?s2 = "\<lparr>db = \<lparr>counters = [?r1, ?r2], next_id = 3\<rparr>, faults = [], clock = clk, ticks = 4\<rparr>"
  let ?s3 = "\<lparr>db = \<lparr>counters = [?r1, ?r2, ?r3], next_id = 4\<rparr>, faults = [], clock = clk, ticks = 6\<rparr>"
  have s1: "increment_counter (fresh_session clk) ''Test'' = (Inr 1, ?s1)"
    by (simp add: run_defs Let_def numeral_2_eq_2)
  have s2: "increment_counter ?s1 ''test'' = (Inr 1, ?s2)"
    by (simp add: run_defs Let_def eval_nat_numeral)
  have s3: "increment_counter ?s2 ''TEST'' = (Inr 1, ?s3)"
    by (simp add: run_defs Let_def eval_nat_numeral)
  have g1: "fst (get_counter ?s3 ''Test'') = Inr ?r1"
    and g2: "fst (get_counter ?s3 ''test'') = Inr ?r2"
    and g3: "fst (get_counter ?s3 ''TEST'') = Inr ?r3"
    by (simp_all add: run_defs)
  have run: "fst (increment_counter (fresh_session clk) ''Test'') = Inr 1 \<and>
   fst (increment_counter (snd (increment_counter (fresh_session clk) ''Test'')) ''test'') = Inr 1 \<and>
   fst (increment_counter (snd (increment_counter (snd (increment_counter
          (fresh_session clk) ''Test'')) ''test'')) ''TEST'') = Inr 1 \<and>
   db (snd (increment_counter (snd (increment_counter (snd (increment_counter
          (fresh_session clk) ''Test'')) ''test'')) ''TEST''))
     = \<lparr>counters = [?r1, ?r2, ?r3], next_id = 4\<rparr> \<and>
   fst (get_counter (snd (increment_counter (snd (increment_counter (snd (increment_counter
          (fresh_session clk) ''Test'')) ''test'')) ''TEST'')) ''Test'') = Inr ?r1 \<and>
   fst (get_counter (snd (increment_counter (snd (increment_counter (snd (increment_counter
          (fresh_session clk) ''Test'')) ''test'')) ''TEST'')) ''test'') = Inr ?r2 \<and>
   fst (get_counter (snd (increment_counter (snd (increment_counter (snd (increment_counter
          (fresh_session clk) ''Test'')) ''test'')) ''TEST'')) ''TEST'') = Inr ?r3"
    unfolding s1 fst_conv snd_conv s2 s3 g1 g2 g3 by simp
  have gen: "available s \<and> table_ok (db s) \<longrightarrow>
      (\<forall>c \<in> set (counters (db s)). name c = n \<longrightarrow>
          fst (get_counter s n) = Inr c \<and> db (snd (get_counter s n)) = db s \<and>
          fst (increment_counter s n) = Inr (value_c c + 1)) \<and>
      (n \<notin> name ` set (counters (db s)) \<longrightarrow>
          (\<exists>c. fst (get_counter s n) = Inr c \<and> name c = n \<and> value_c c = 0 \<and>
               counters (db (snd (get_counter s n))) = counters (db s) @ [c]) \<and>
          fst (increment_counter s n) = Inr 1)"
  proof (intro impI conjI ballI; (elim conjE)?)
    fix c
    assume a: "available s" and t: "table_ok (db s)"
      and c: "c \<in> set (counters (db s))" and n: "name c = n"
    have l: "lookup (db s) n = Some c" using lookup_member[OF t c] n by simp
    show "fst (get_counter s n) = Inr c" "db (snd (get_counter s n)) = db s"
      using get_counter_avail[OF a t, of n] l by auto
    show "fst (increment_counter s n) = Inr (value_c c + 1)"
      using update_counter_ok[OF a t, of "\<lambda>v. v + 1" n] l
      by (simp add: increment_counter_update stored_value_def)
  next
    assume a: "available s" and t: "table_ok (db s)"
      and n: "n \<notin> name ` set (counters (db s))"
    have l: "lookup (db s) n = None" using n by (rule lookup_no_member)
    show "\<exists>c. fst (get_counter s n) = Inr c \<and> name c = n \<and> value_c c = 0 \<and>
               counters (db (snd (get_counter s n))) = counters (db s) @ [c]"
      using get_counter_avail[OF a t, of n] l by auto
    show "fst (increment_counter s n) = Inr 1"
      using update_counter_ok[OF a t, of "\<lambda>v. v + 1" n] l
      by (simp add: increment_counter_update stored_value_def)
  qed
  from gen run show ?thesis by blast
qed

theorem case_sensitive_names_witness:
  "available (seed (fresh_session (\<lambda>k. k)) ''Test'' 7) \<and>
   table_ok (db (seed (fresh_session (\<lambda>k. k)) ''Test'' 7)) \<and>
   fst (get_counter (seed (fresh_session (\<lambda>k. k)) ''Test'' 7) ''Test'')
     = Inr \<lparr>id_c = Some 1, name = ''Test'', value_c = 7, created_at = 0, updated_at = 1\<rparr> \<and>
   db (snd (get_counter (seed (fresh_session (\<lambda>k. k)) ''Test'' 7) ''Test''))
     = db (seed (fresh_session (\<lambda>k. k)) ''Test'' 7) \<and>
   fst (increment_counter (seed (fresh_session (\<lambda>k. k)) ''Test'' 7) ''Test'') = Inr 8 \<and>
   fst (increment_counter (seed (fresh_session (\<lambda>k. k)) ''Test'' 7) ''test'') = Inr 1 \<and>
   (\<exists>c. fst (get_counter (seed (fresh_session (\<lambda>k. k)) ''Test'' 7) ''TEST'') = Inr c \<and>
        name c = ''TEST'' \<and> value_c c = 0)"
proof -
  let ?s = "seed (fresh_session (\<lambda>k. k)) ''Test'' 7"
  let ?r = "\<lparr>id_c = Some 1, name = ''Test'', value_c = 7, created_at = 0, updated_at = 1\<rparr>"
  have a: "available ?s" and t: "table_ok (db ?s)"
    by (simp_all add: seed_fresh available_def table_ok_def id_below_def)
  have m: "?r \<in> set (counters (db ?s))" and nm: "name ?r = ''Test''"
    and n1: "''test'' \<notin> name ` set (counters (db ?s))"
    and n2: "''TEST'' \<notin> name ` set (counters (db ?s))"
    by (simp_all add: seed_fresh)
  from case_sensitive_names[of ?s "''Test''" "\<lambda>k. k"] a t m nm
  have 1: "fst (get_counter ?s ''Test'') = Inr ?r \<and> db (snd (get_counter ?s ''Test'')) = db ?s \<and>
           fst (increment_counter ?s ''Test'') = Inr 8"
    by (auto simp del: fst_conv snd_conv)
  from case_sensitive_names[of ?s "''test''" "\<lambda>k. k"] a t n1
  have 2: "fst (increment_counter ?s ''test'') = Inr 1" by blast
  from case_sensitive_names[of ?s "''TEST''" "\<lambda>k. k"] a t n2
  have 3: "\<exists>c. fst (get_counter ?s ''TEST'') = Inr c \<and> name c = ''TEST'' \<and> value_c c = 0" by blast
  from a t 1 2 3 show ?thesis by blast
qed

text \<open>
  C9. The value is an unbounded integer and no operation clamps it: under normal
  availability on a well-formed table, \<open>k\<close> decrements in a row return the stored value
  minus 1, minus 2, ... minus \<open>k\<close>, and \<open>k\<close> increments return it plus 1 ... plus \<open>k\<close>,
  for every \<open>k\<close> and every starting value; a single increment returns exactly the
  stored value plus 1, so 999999 gives 1000000.
\<close>

theorem no_clamping:
  assumes "available s" and "table_ok (db s)"
  shows "fst (run_calls s n (replicate k Decrement))
           = Inr (map (\<lambda>i. stored_value (db s) n - int i) [1..<Suc k]) \<and>
         fst (run_calls s n (replicate k Increment))
           = Inr (map (\<lambda>i. stored_value (db s) n + int i) [1..<Suc k]) \<and>
         stored_value (db (snd (run_calls s n (replicate k Decrement)))) n
           = stored_value (db s) n - int k \<and>
         stored_value (db (snd (run_calls s n (replicate k Increment)))) n
           = stored_value (db s) n + int k \<and>
         fst (increment_counter s n) = Inr (stored_value (db s) n + 1) \<and>
         fst (decrement_counter s n) = Inr (stored_value (db s) n - 1)"
  using run_calls_ok[OF assms, of n "replicate k Decrement"]
    run_calls_ok[OF assms, of n "replicate k Increment"]
    update_counter_ok[OF assms, of "\<lambda>v. v + 1" n]
    update_counter_ok[OF assms, of "\<lambda>v. v - 1" n]
  by (simp add: running_replicate sum_list_replicate increment_counter_update
      decrement_counter_update del: upt_Suc)

theorem no_clamping_witness:
  "available (fresh_session (\<lambda>k. k)) \<and> table_ok (db (fresh_session (\<lambda>k. k))) \<and>
   fst (run_calls (fresh_session (\<lambda>k. k)) ''default'' (replicate 3 Decrement))
     = Inr [- 1, - 2, - 3] \<and>
   available (seed (fresh_session (\<lambda>k. k)) ''large'' 999999) \<and>
   table_ok (db (seed (fresh_session (\<lambda>k. k)) ''large'' 999999)) \<and>
   fst (increment_counter (seed (fresh_session (\<lambda>k. k)) ''large'' 999999) ''large'')
     = Inr 1000000"
proof -
  let ?s = "fresh_session (\<lambda>k. k)"
  let ?t = "seed ?s ''large'' 999999"
  have a: "available ?s" and t: "table_ok (db ?s)" and v: "stored_value (db ?s) ''default'' = 0"
    by (simp_all add: run_defs)
  have a2: "available ?t" and t2: "table_ok (db ?t)"
    and v2: "stored_value (db ?t) ''large'' = 999999"
    by (simp_all add: seed_fresh available_def table_ok_def id_below_def lookup_def stored_value_def)
  have u: "[Suc 0..<4] = [1, 2, 3]" by (simp add: upt_conv_Cons)
  show ?thesis
    using a t a2 t2 no_clamping[OF a t, of "''default''" 3] no_clamping[OF a2 t2, of "''large''" 0]
    by (simp add: v v2 u del: upt_Suc)
qed

text \<open>
  C10. Under normal availability on a well-formed table, \<open>get_counter\<close> returns a
  counter whose value is the stored value (0 when the name is not stored), and after
  an increment followed by a decrement of that name, or a decrement followed by an
  increment, a record is stored under the name with exactly that value.
\<close>

theorem inc_then_dec:
  assumes "available s" and "table_ok (db s)"
  shows "\<exists>c. fst (get_counter s n) = Inr c \<and> value_c c = stored_value (db s) n \<and>
           stored_value (db (snd (decrement_counter (snd (increment_counter s n)) n))) n = value_c c \<and>
           stored_value (db (snd (increment_counter (snd (decrement_counter s n)) n))) n = value_c c \<and>
           lookup (db (snd (decrement_counter (snd (increment_counter s n)) n))) n \<noteq> None \<and>
           lookup (db (snd (increment_counter (snd (decrement_counter s n)) n))) n \<noteq> None"
proof -
  obtain c where g: "fst (get_counter s n) = Inr c" "value_c c = stored_value (db s) n"
    using get_counter_avail[OF assms, of n] by auto
  let ?i = "snd (update_counter (\<lambda>v. v + 1) s n)"
  let ?d = "snd (update_counter (\<lambda>v. v - 1) s n)"
  from update_counter_ok[OF assms, of "\<lambda>v. v + 1" n]
  have ai: "available ?i" and ti: "table_ok (db ?i)"
    and vi: "stored_value (db ?i) n = stored_value (db s) n + 1" by simp_all
  from update_counter_ok[OF assms, of "\<lambda>v. v - 1" n]
  have ad: "available ?d" and td: "table_ok (db ?d)"
    and vd: "stored_value (db ?d) n = stored_value (db s) n - 1" by simp_all
  from update_counter_ok[OF ai ti, of "\<lambda>v. v - 1" n] update_counter_ok[OF ad td, of "\<lambda>v. v + 1" n]
    g vi vd
  show ?thesis
    by (auto simp: increment_counter_update decrement_counter_update)
qed

theorem inc_then_dec_witness:
  "available (seed (fresh_session (\<lambda>k. k)) ''x'' 41) \<and>
   table_ok (db (seed (fresh_session (\<lambda>k. k)) ''x'' 41)) \<and>
   stored_value (db (snd (decrement_counter (snd (increment_counter
      (seed (fresh_session (\<lambda>k. k)) ''x'' 41) ''x'')) ''x''))) ''x'' = 41 \<and>
   stored_value (db (snd (increment_counter (snd (decrement_counter
      (seed (fresh_session (\<lambda>k. k)) ''x'' 41) ''y'')) ''y''))) ''y'' = 0"
proof -
  let ?s = "seed (fresh_session (\<lambda>k. k)) ''x'' 41"
  have a: "available ?s" and t: "table_ok (db ?s)"
    and v: "stored_value (db ?s) ''x'' = 41" and w: "stored_value (db ?s) ''y'' = 0"
    by (simp_all add: seed_fresh available_def table_ok_def id_below_def lookup_def stored_value_def)
  show ?thesis
    using a t v w inc_then_dec[OF a t, of "''x''"] inc_then_dec[OF a t, of "''y''"]
    by auto
qed

end
